theory Spec2Isabelle
  imports Main "HOL-Library.Sublist"
begin

section \<open>Strings and the two regular expressions of the locator\<close>

text \<open>
  Python strings are modelled as \<^typ>\<open>string\<close>. The characters are the code points
  below 256; in that range the class \<^verbatim>\<open>\d\<close> of Python's \<^verbatim>\<open>re\<close> is exactly the
  ten ASCII digits.
\<close>

definition is_digit :: "char \<Rightarrow> bool" where
  "is_digit c = (c \<in> set ''0123456789'')"

text \<open>
  The pattern of \<^verbatim>\<open>get_doc_id\<close> and of \<^verbatim>\<open>_extract_doc_id\<close> is
  \<^verbatim>\<open>(?:doc|document|embeds)/(\d+)\<close>. The alternatives are tried in the order
  written; after one of them a slash and a greedy, non-empty run of digits must follow.
  Nothing follows the group, so the greedy run is the longest one.
\<close>

definition doc_literals :: "string list" where
  "doc_literals = [''doc'', ''document'', ''embeds'']"

fun match_alternatives :: "string list \<Rightarrow> string \<Rightarrow> string option" where
  "match_alternatives [] s = None"
| "match_alternatives (l # ls) s =
     (if prefix (l @ ''/'') s \<and> takeWhile is_digit (drop (length l + 1) s) \<noteq> []
      then Some (takeWhile is_digit (drop (length l + 1) s))
      else match_alternatives ls s)"

definition match_doc_id_at :: "string \<Rightarrow> string option" where
  "match_doc_id_at s = match_alternatives doc_literals s"

text \<open>\<^verbatim>\<open>re.search\<close>: the match at the leftmost position that has one; group 1 of it.\<close>

fun search_doc_id :: "string \<Rightarrow> string option" where
  "search_doc_id [] = match_doc_id_at []"
| "search_doc_id (c # cs) =
     (case match_doc_id_at (c # cs) of
        Some d \<Rightarrow> Some d
      | None \<Rightarrow> search_doc_id cs)"

text \<open>
  \<^verbatim>\<open>get_doc_id\<close> (scribdl.py) and \<^verbatim>\<open>ScribdSeleniumDownloader._extract_doc_id\<close>
  (selenium_downloader.py): group 1 of the search, or \<^verbatim>\<open>None\<close>. The log lines
  do not change the result.
\<close>

definition get_doc_id :: "string \<Rightarrow> string option" where
  "get_doc_id url = (case search_doc_id url of Some doc_id \<Rightarrow> Some doc_id | None \<Rightarrow> None)"

definition extract_doc_id :: "string \<Rightarrow> string option" where
  "extract_doc_id url = (case search_doc_id url of Some doc_id \<Rightarrow> Some doc_id | None \<Rightarrow> None)"

text \<open>The canonical content endpoint, as both modules format it.\<close>

definition embed_url :: "string \<Rightarrow> string" where
  "embed_url doc_id = ''https://www.scribd.com/embeds/'' @ doc_id @ ''/content''"

subsection \<open>Title sanitising\<close>

text \<open>
  \<^verbatim>\<open>str.replace(old, new)\<close> where both arguments are one character long. The
  forbidden characters are space, star, double quote, slash, backslash, the angle
  brackets, colon, bar and question mark, in the order of the source literal.
\<close>

definition replace_chr :: "char \<Rightarrow> char \<Rightarrow> string \<Rightarrow> string" where
  "replace_chr old new s = map (\<lambda>c. if c = old then new else c) s"

definition forbidden_chars :: string where
  "forbidden_chars = [CHR '' '', CHR ''*'', CHR 0x22, CHR ''/'', CHR 0x5C,
     CHR ''<'', CHR ''>'', CHR '':'', CHR ''|'', CHR ''?'']"

definition replace_char :: char where
  "replace_char = CHR ''_''"

definition sanitize_title :: "string \<Rightarrow> string" where
  "sanitize_title title = foldl (\<lambda>t ch. replace_chr ch replace_char t) title forbidden_chars"

subsection \<open>The recognised shapes, in the words of the specification\<close>

text \<open>
  The specification speaks of a path segment literal followed by a numeric identifier
  segment. \<open>spec_recognized_shape\<close> follows these words, to be compared with the
  search above: the reference is cut at its slashes, and some segment is one of the
  three literals with a non-empty, all-digit segment right after it.
\<close>

fun split_on :: "char \<Rightarrow> string \<Rightarrow> string list" where
  "split_on sep [] = [[]]"
| "split_on sep (c # cs) =
     (if c = sep then [] # split_on sep cs
      else (case split_on sep cs of
              [] \<Rightarrow> [[c]]
            | seg # segs \<Rightarrow> (c # seg) # segs))"

fun literal_then_id :: "string list \<Rightarrow> bool" where
  "literal_then_id (a # b # segs) =
     (if a \<in> set doc_literals \<and> b \<noteq> [] \<and> list_all is_digit b then True
      else literal_then_id (b # segs))"
| "literal_then_id segs = False"

definition spec_recognized_shape :: "string \<Rightarrow> bool" where
  "spec_recognized_shape url = literal_then_id (split_on CHR ''/'' url)"

section \<open>The lazy-load driver\<close>

text \<open>
  The browser session is outside the program. What it answers to the calls of one pass
  through the loop of \<^verbatim>\<open>_auto_scroll_and_load\<close> is given per pass, the passes
  counted from 1: the answer of the cancellation callback (an absent callback is the one
  that always answers \<open>False\<close>), the two page counts (\<^verbatim>\<open>_count_loaded_pages\<close>
  turns its own exceptions into 0), whether \<^verbatim>\<open>window.scrollTo\<close> went through, the
  scrollable height and the scroll offset read back. \<open>None\<close> is a call that raised.
  Heights and offsets are Python integers.
\<close>

record browser =
  check_stop :: "nat \<Rightarrow> bool"
  pages_before :: "nat \<Rightarrow> nat"
  scroll_to_ok :: "nat \<Rightarrow> bool"
  pages_after :: "nat \<Rightarrow> nat"
  page_height :: "nat \<Rightarrow> int option"
  scroll_offset :: "nat \<Rightarrow> int option"

datatype driver_error = DriverError

text \<open>The local variables of the loop that survive a pass.\<close>

record scroll_state =
  scroll_position :: int
  page_count :: nat
  no_new_content_count :: nat

text \<open>
  How the loop was left: by the callback, or by the stop condition, which is kept with
  the offset and the height it was evaluated on.
\<close>

datatype scroll_exit = StoppedByUser | ReachedEnd int int

definition initial_scroll_state :: scroll_state where
  "initial_scroll_state = \<lparr>scroll_position = 0, page_count = 0, no_new_content_count = 0\<rparr>"

text \<open>
  The counting between the two page counts of a pass: the position has moved by 800, and
  either the page total is taken over and the counter reset, or the counter goes up.
\<close>

definition count_pass :: "nat \<Rightarrow> nat \<Rightarrow> scroll_state \<Rightarrow> scroll_state" where
  "count_pass before after s =
     (if after > before
      then s\<lparr>scroll_position := scroll_position s + 800, page_count := after,
             no_new_content_count := 0\<rparr>
      else s\<lparr>scroll_position := scroll_position s + 800,
             no_new_content_count := no_new_content_count s + 1\<rparr>)"

definition end_condition :: "int \<Rightarrow> int \<Rightarrow> scroll_state \<Rightarrow> bool" where
  "end_condition current_position new_height s =
     ((current_position + 1080 \<ge> new_height \<and> no_new_content_count s \<ge> 3)
      \<or> scroll_position s \<ge> new_height)"

text \<open>
  The \<^verbatim>\<open>while True\<close> loop. It may run forever, so it is a partial function: no
  result is \<open>None\<close>. \<open>n\<close> is the number of the pass.
\<close>

partial_function (option) scroll_loop ::
  "browser \<Rightarrow> nat \<Rightarrow> scroll_state \<Rightarrow> (driver_error + scroll_exit \<times> scroll_state) option"
where
  "scroll_loop b n s =
     (if check_stop b n then Some (Inr (StoppedByUser, s))
      else if \<not> scroll_to_ok b n then Some (Inl DriverError)
      else
        (case page_height b n of
           None \<Rightarrow> Some (Inl DriverError)
         | Some new_height \<Rightarrow>
             (case scroll_offset b n of
                None \<Rightarrow> Some (Inl DriverError)
              | Some current_position \<Rightarrow>
                  if end_condition current_position new_height
                       (count_pass (pages_before b n) (pages_after b n) s)
                  then Some (Inr (ReachedEnd current_position new_height,
                         count_pass (pages_before b n) (pages_after b n) s))
                  else scroll_loop b (n + 1)
                         (count_pass (pages_before b n) (pages_after b n) s))))"

declare scroll_loop.simps [code]

text \<open>
  \<^verbatim>\<open>_auto_scroll_and_load\<close>: the height is read once before the loop (the call can
  raise), the loop runs from the first pass, and the page count is returned.
\<close>

definition auto_scroll_and_load ::
  "int option \<Rightarrow> browser \<Rightarrow> (driver_error + nat) option" where
  "auto_scroll_and_load last_height b =
     (case last_height of
        None \<Rightarrow> Some (Inl DriverError)
      | Some _ \<Rightarrow>
          (case scroll_loop b 1 initial_scroll_state of
             None \<Rightarrow> None
           | Some (Inl e) \<Rightarrow> Some (Inl e)
           | Some (Inr (_, s)) \<Rightarrow> Some (Inr (page_count s))))"

text \<open>
  A browser for trying the loop: a page of height 10000 in a window of height 1080, five
  pages present from the start and none added, every call answered, nobody cancelling.
  The offset read back is the requested one, cut at the lowest possible offset 8920.
\<close>

definition tall_page :: browser where
  "tall_page = \<lparr>check_stop = (\<lambda>n. False), pages_before = (\<lambda>n. 5), scroll_to_ok = (\<lambda>n. True),
     pages_after = (\<lambda>n. 5), page_height = (\<lambda>n. Some 10000),
     scroll_offset = (\<lambda>n. Some (min (800 * int n) 8920))\<rparr>"

text \<open>The same page with a user who cancels at the second poll.\<close>

definition tall_page_cancelled :: browser where
  "tall_page_cancelled = tall_page\<lparr>check_stop := (\<lambda>n. n = 2)\<rparr>"

text \<open>
  What holds whenever pass \<open>n\<close> begins: \<open>n - 1\<close> increments of 800 have been made, and
  the counter counts passes at the end of the passes made so far, none of which found
  more pages after its increment than before.
\<close>

definition pass_invariant :: "browser \<Rightarrow> nat \<Rightarrow> scroll_state \<Rightarrow> bool" where
  "pass_invariant b n s \<longleftrightarrow>
     scroll_position s = 800 * (int n - 1) \<and> no_new_content_count s < n \<and>
     (\<forall>j. j < n \<and> n \<le> j + no_new_content_count s \<longrightarrow> pages_after b j \<le> pages_before b j)"

text \<open>
  What is known of a result of the loop: when the stop condition ended it with the
  requested position still above the bottom, the offset read back is within one window
  height of the bottom and the counter is at least 3; and the invariant holds for the
  passes made.
\<close>

definition exit_ok :: "browser \<Rightarrow> driver_error + scroll_exit \<times> scroll_state \<Rightarrow> bool" where
  "exit_ok b r = (case r of
       Inl e \<Rightarrow> True
     | Inr (StoppedByUser, s) \<Rightarrow> True
     | Inr (ReachedEnd cur h, s) \<Rightarrow>
         (scroll_position s < h \<longrightarrow> cur + 1080 \<ge> h \<and> 3 \<le> no_new_content_count s)
         \<and> (\<exists>m. pass_invariant b (Suc m) s))"

section \<open>The static retriever\<close>

subsection \<open>String operations of the discovery\<close>

text \<open>\<^verbatim>\<open>str.find\<close>, with \<open>None\<close> for -1, and the substring test \<^verbatim>\<open>in\<close>.\<close>

fun find_sub :: "string \<Rightarrow> string \<Rightarrow> nat option" where
  "find_sub pat [] = (if pat = [] then Some 0 else None)"
| "find_sub pat (c # cs) =
     (if prefix pat (c # cs) then Some 0 else map_option Suc (find_sub pat cs))"

definition contains :: "string \<Rightarrow> string \<Rightarrow> bool" where
  "contains pat s = (find_sub pat s \<noteq> None)"

text \<open>
  \<^verbatim>\<open>str.replace\<close> for a non-empty pattern: occurrences are replaced from the left
  and do not overlap. \<open>skip\<close> counts the characters of a replaced occurrence still to
  pass over.
\<close>

fun replace_from :: "nat \<Rightarrow> string \<Rightarrow> string \<Rightarrow> string \<Rightarrow> string" where
  "replace_from skip old new [] = []"
| "replace_from skip old new (c # cs) =
     (if skip > 0 then replace_from (skip - 1) old new cs
      else if old \<noteq> [] \<and> prefix old (c # cs)
        then new @ replace_from (length old - 1) old new cs
      else c # replace_from 0 old new cs)"

definition replace_str :: "string \<Rightarrow> string \<Rightarrow> string \<Rightarrow> string" where
  "replace_str old new s = replace_from 0 old new s"

text \<open>The class \<^verbatim>\<open>\s\<close> on the code points below 256, and the double quote.\<close>

definition is_space :: "char \<Rightarrow> bool" where
  "is_space c = (c \<in> set [CHR 0x09, CHR 0x0A, CHR 0x0B, CHR 0x0C, CHR 0x0D, CHR 0x1C,
     CHR 0x1D, CHR 0x1E, CHR 0x1F, CHR 0x20, CHR 0x85, CHR 0xA0])"

definition dquote :: char where
  "dquote = CHR 0x22"

text \<open>
  The pattern of the structured form is \<^verbatim>\<open>contentUrl:\s*"(https://[^"]+\.jsonp)"\<close>.
  At a given position it matches in at most one way: the group has no quote in it and a
  quote follows it, so it is the text up to the next quote, which must begin with
  \<^verbatim>\<open>https://\<close>, end with \<^verbatim>\<open>.jsonp\<close> and have something between. The result is
  the group and the length of the whole match.
\<close>

definition match_content_url :: "string \<Rightarrow> (string \<times> nat) option" where
  "match_content_url s =
     (if prefix ''contentUrl:'' s then
        (case dropWhile is_space (drop 11 s) of
           [] \<Rightarrow> None
         | q # r \<Rightarrow>
             if q = dquote \<and> dropWhile (\<lambda>c. c \<noteq> dquote) r \<noteq> []
                \<and> prefix ''https://'' (takeWhile (\<lambda>c. c \<noteq> dquote) r)
                \<and> suffix ''.jsonp'' (takeWhile (\<lambda>c. c \<noteq> dquote) r)
                \<and> length (takeWhile (\<lambda>c. c \<noteq> dquote) r) \<ge> 8 + 1 + 6
             then Some (takeWhile (\<lambda>c. c \<noteq> dquote) r,
                    11 + length (takeWhile is_space (drop 11 s)) + 1
                      + length (takeWhile (\<lambda>c. c \<noteq> dquote) r) + 1)
             else None)
      else None)"

text \<open>
  \<^verbatim>\<open>re.findall\<close>: the groups of the matches from left to right, each search resuming
  where the last match ended.
\<close>

fun findall_content_url :: "nat \<Rightarrow> string \<Rightarrow> string list" where
  "findall_content_url skip [] = []"
| "findall_content_url skip (c # cs) =
     (if skip > 0 then findall_content_url (skip - 1) cs
      else (case match_content_url (c # cs) of
              Some (g, len) \<Rightarrow> g # findall_content_url (len - 1) cs
            | None \<Rightarrow> findall_content_url 0 cs))"

text \<open>
  The legacy form: the script text from the first \<^verbatim>\<open>https://\<close> to the end of the
  first \<^verbatim>\<open>.jsonp\<close>, as the slice \<^verbatim>\<open>inner_opening[portion1 : portion2 + 6]\<close>
  (empty when the second lies before the first).
\<close>

definition legacy_jsonp :: "string \<Rightarrow> string option" where
  "legacy_jsonp inner_opening =
     (case find_sub ''https://'' inner_opening of
        None \<Rightarrow> None
      | Some portion1 \<Rightarrow>
          (case find_sub ''.jsonp'' inner_opening of
             None \<Rightarrow> None
           | Some portion2 \<Rightarrow> Some (drop portion1 (take (portion2 + 6) inner_opening))))"

subsection \<open>What the retriever does\<close>

text \<open>
  The fetched markup, as far as the retriever reads it: the text of the title tag if
  there is one, and for each script tag its \<^verbatim>\<open>.string\<close>, which can be \<^verbatim>\<open>None\<close>.
  A fetch that raises (a network error or an error status) is \<open>None\<close>.
\<close>

record markup =
  title_tag :: "string option"
  scripts :: "string option list"

text \<open>
  The run is observed by what it does outside: the URL it fetches, the calls of
  \<^verbatim>\<open>save_content\<close> that save something (with the descriptor URL and the ordinal), and
  log lines. The style sheets and inline pages written in html mode are left out.
\<close>

datatype event =
  Fetch string
| Save string string nat
| Info string
| Error string

text \<open>
  \<^verbatim>\<open>save_content\<close>: nothing is saved for an empty URL and the ordinal stays; else the
  content goes to the sink of the mode and the ordinal moves on. A fetch that fails
  inside a sink is logged there and does not come back; the output directory and files
  are taken to accept the writes.
\<close>

definition save_content :: "string \<Rightarrow> string \<Rightarrow> nat \<Rightarrow> event list \<times> nat" where
  "save_content jsonp mode train =
     (if jsonp = [] then ([], train) else ([Save jsonp mode train], train + 1))"

text \<open>
  Whether some script has both \<^verbatim>\<open>window.page\<close> and \<^verbatim>\<open>_callback\<close> in it. An absent
  or empty \<^verbatim>\<open>.string\<close> counts as false.
\<close>

definition has_legacy_callback :: "string option list \<Rightarrow> bool" where
  "has_legacy_callback ss =
     list_ex (\<lambda>s. case s of
                 None \<Rightarrow> False
               | Some str \<Rightarrow> str \<noteq> [] \<and> contains ''window.page'' str \<and> contains ''_callback'' str) ss"

text \<open>
  The two loops over the scripts. The cancellation callback is an impure function: \<open>stop k\<close>
  is its answer at the poll number \<open>k\<close> of the run. In the structured loop the inner
  \<^verbatim>\<open>break\<close> leaves the matches of one script only.
\<close>

fun legacy_loop :: "(nat \<Rightarrow> bool) \<Rightarrow> nat \<Rightarrow> string \<Rightarrow> string option list \<Rightarrow> nat \<Rightarrow> event list" where
  "legacy_loop stop k mode [] train = []"
| "legacy_loop stop k mode (opening # rest) train =
     (if stop k then [Info ''Download stopped by user.'']
      else (case opening of
              None \<Rightarrow> legacy_loop stop (k + 1) mode rest train
            | Some inner_opening \<Rightarrow>
                if inner_opening = [] then legacy_loop stop (k + 1) mode rest train
                else (case legacy_jsonp inner_opening of
                        None \<Rightarrow> legacy_loop stop (k + 1) mode rest train
                      | Some jsonp \<Rightarrow>
                          fst (save_content jsonp mode train)
                          @ legacy_loop stop (k + 1) mode rest (snd (save_content jsonp mode train)))))"

definition unescape_slashes :: "string \<Rightarrow> string" where
  "unescape_slashes jsonp = replace_str (CHR 0x5C # ''u002F'') ''/'' jsonp"

fun save_matches :: "(nat \<Rightarrow> bool) \<Rightarrow> nat \<Rightarrow> string \<Rightarrow> string list \<Rightarrow> nat \<Rightarrow> event list \<times> nat \<times> nat" where
  "save_matches stop k mode [] train = ([], k, train)"
| "save_matches stop k mode (m # ms) train =
     (if stop k then ([], k + 1, train)
      else (case save_matches stop (k + 1) mode ms (snd (save_content (unescape_slashes m) mode train)) of
              (evs, k', train') \<Rightarrow> (fst (save_content (unescape_slashes m) mode train) @ evs, k', train')))"

fun structured_loop :: "(nat \<Rightarrow> bool) \<Rightarrow> nat \<Rightarrow> string \<Rightarrow> string option list \<Rightarrow> nat \<Rightarrow> event list" where
  "structured_loop stop k mode [] train = []"
| "structured_loop stop k mode (s # rest) train =
     (if stop k then []
      else (case s of
              None \<Rightarrow> structured_loop stop (k + 1) mode rest train
            | Some str \<Rightarrow>
                if str = [] then structured_loop stop (k + 1) mode rest train
                else (case save_matches stop (k + 1) mode (findall_content_url 0 str) train of
                        (evs, k', train') \<Rightarrow> evs @ structured_loop stop k' mode rest train')))"

definition parsing_line :: string where
  "parsing_line = ''Parsing scripts for contentUrl...''"

text \<open>The discovery of \<^verbatim>\<open>get_scribd_document\<close>: the legacy loop if the check finds the
  legacy form, else the log line and the structured loop. The ordinal starts at 1.\<close>

definition discover :: "(nat \<Rightarrow> bool) \<Rightarrow> string \<Rightarrow> string option list \<Rightarrow> event list" where
  "discover stop mode ss =
     (if has_legacy_callback ss then legacy_loop stop 0 mode ss 1
      else Info parsing_line # structured_loop stop 0 mode ss 1)"

text \<open>The URL that \<^verbatim>\<open>get_scribd_document\<close> fetches, once it has an id.\<close>

definition target_url :: "string \<Rightarrow> string \<Rightarrow> string \<Rightarrow> string" where
  "target_url url mode doc_id = (if mode = ''html'' then embed_url doc_id else url)"

definition get_scribd_document ::
  "string \<Rightarrow> string \<Rightarrow> (nat \<Rightarrow> bool) \<Rightarrow> (string \<Rightarrow> markup option) \<Rightarrow> event list" where
  "get_scribd_document url mode stop fetch =
     (case get_doc_id url of
        None \<Rightarrow> [Error ''Could not extract document ID from URL.'']
      | Some doc_id \<Rightarrow>
          Fetch (target_url url mode doc_id)
          # (case fetch (target_url url mode doc_id) of
               None \<Rightarrow> [Error ''Network error accessing document'']
             | Some soup \<Rightarrow>
                 Info (''Downloading '' @ sanitize_title
                         (case title_tag soup of
                            None \<Rightarrow> ''Scribd_Document_'' @ doc_id
                          | Some t \<Rightarrow> t) @ '' in '' @ mode @ '' mode'')
                 # discover stop mode (scripts soup)))"

subsection \<open>The legacy marker\<close>

text \<open>
  The marker of the legacy encoding is the one \<^verbatim>\<open>extract_jsonp_content\<close> searches
  for, \<^verbatim>\<open>window\.page\d+_callback\<close>: here at the start of a text, and anywhere in it.
\<close>

definition callback_marker_at :: "string \<Rightarrow> bool" where
  "callback_marker_at s =
     (prefix ''window.page'' s \<and> takeWhile is_digit (drop 11 s) \<noteq> []
      \<and> prefix ''_callback'' (dropWhile is_digit (drop 11 s)))"

definition has_callback_marker :: "string \<Rightarrow> bool" where
  "has_callback_marker s = list_ex callback_marker_at (suffixes s)"

text \<open>Markup for trying the retriever: one script of each form.\<close>

definition legacy_script :: string where
  "legacy_script = ''window.page1_callback([...]); var x = ''
     @ [dquote] @ ''https://html2-f.scribdassets.com/8u7q/pages/1-a9de.jsonp'' @ [dquote] @ '';''"

definition structured_script :: string where
  "structured_script = ''pages[1] = { contentUrl: ''
     @ [dquote] @ ''https://html2-f.scribdassets.com/8u7q/pages/1-a9de.jsonp'' @ [dquote] @ '' };''"

definition example_fetch :: "string option list \<Rightarrow> string \<Rightarrow> markup option" where
  "example_fetch ss url = Some \<lparr>title_tag = Some ''Price Action'', scripts = ss\<rparr>"

definition never_stop :: "nat \<Rightarrow> bool" where
  "never_stop k = False"

definition is_fetch :: "event \<Rightarrow> bool" where
  "is_fetch ev = (case ev of Fetch u \<Rightarrow> True | _ \<Rightarrow> False)"

section \<open>Page capture and assembly\<close>

subsection \<open>Files\<close>

text \<open>
  A PDF file is the list of its pages. A page of a per-page file is one of four things:
  what \<^verbatim>\<open>Page.printToPDF\<close> gave while page \<open>i\<close> was in view, the screenshot of
  element \<open>i\<close> turned into a PDF page, the page reportlab draws with the text
  \<^verbatim>\<open>Page capture failed\<close>, or the empty page of the hand-written minimal PDF.
\<close>

datatype page_image = Printed nat | Screenshot nat | FailureNotice | BlankPage

type_synonym pdf = "page_image list"

text \<open>
  The part of the file system the run touches: the scratch directory \<^verbatim>\<open>temp_<id>\<close>,
  whether it exists and the readable files in it (\<^verbatim>\<open>page_<i>.pdf\<close> is listed under
  \<open>i\<close>; the three-digit name is different for different \<open>i\<close>), and the output file. A
  write that fails leaves at best a truncated file, which \<^verbatim>\<open>PdfMerger\<close> cannot read
  any more than a missing one: neither is listed.
\<close>

record file_system =
  temp_files :: "(nat \<times> pdf) list"
  temp_dir :: bool
  output_file :: "pdf option"

definition read_temp :: "file_system \<Rightarrow> nat \<Rightarrow> pdf option" where
  "read_temp fs i = map_of (temp_files fs) i"

definition write_temp :: "nat \<Rightarrow> pdf \<Rightarrow> file_system \<Rightarrow> file_system" where
  "write_temp i doc fs =
     fs\<lparr>temp_files := (i, doc) # filter (\<lambda>(k, d). k \<noteq> i) (temp_files fs)\<rparr>"

subsection \<open>The session\<close>

text \<open>
  What the world outside answers during \<^verbatim>\<open>download_as_pdf\<close>. An attempt
  of a capture method is good when the method and the write of its file both went
  through; the merged file is written when \<^verbatim>\<open>write\<close> and \<^verbatim>\<open>close\<close> of the
  merger both went through. The ways
  \<^verbatim>\<open>_create_blank_pdf\<close> can go: reportlab writes its page; reportlab cannot be
  imported and the minimal PDF is written by hand; it cannot be imported and the write
  by hand raises, out of the \<^verbatim>\<open>except ImportError\<close> clause and so out of the
  function; or another exception is caught by the last clause, logged, and nothing is
  written. An import of PyPDF2 succeeds or fails, and on failure \<^verbatim>\<open>pip install\<close>
  succeeds or not.
\<close>

datatype blank_outcome = ReportlabWrites | ManualWrites | ManualWriteRaises | CreationFails

datatype import_outcome = Imported | Missing bool

datatype abort = Cancelled | Raised

record session =
  setup_driver_ok :: bool
  load_ok :: "string \<Rightarrow> bool"
  first_height :: "int option"
  scrolling :: browser
  stop_after_scroll :: bool
  page_elements :: nat
  makedirs_ok :: bool
  stop_before_page :: "nat \<Rightarrow> bool"
  scroll_to_element_ok :: "nat \<Rightarrow> bool"
  print_ok :: "nat \<Rightarrow> nat \<Rightarrow> bool"
  screenshot_ok :: "nat \<Rightarrow> nat \<Rightarrow> bool"
  blank_result :: "nat \<Rightarrow> blank_outcome"
  pypdf2_imports :: "import_outcome list"
  merger_write_ok :: bool
  remove_ok :: "nat \<Rightarrow> bool"
  rmdir_ok :: bool

subsection \<open>Capturing one page\<close>

definition max_retries :: nat where
  "max_retries = 3"

text \<open>
  The loop \<^verbatim>\<open>for attempt in range(max_retries)\<close> for page \<open>i\<close>: print first; if
  that raises, the screenshot; if that fails too, the exception is raised again, caught
  and logged, and the next attempt follows. The result is the page captured, if any, and
  the number of attempts made.
\<close>

fun capture_attempts :: "session \<Rightarrow> nat \<Rightarrow> nat list \<Rightarrow> page_image option \<times> nat" where
  "capture_attempts e i [] = (None, 0)"
| "capture_attempts e i (attempt # later) =
     (if print_ok e i attempt then (Some (Printed i), 1)
      else if screenshot_ok e i attempt then (Some (Screenshot i), 1)
      else (case capture_attempts e i later of (captured, made) \<Rightarrow> (captured, made + 1)))"

definition create_blank_pdf :: "blank_outcome \<Rightarrow> nat \<Rightarrow> file_system \<Rightarrow> abort + file_system" where
  "create_blank_pdf outcome i fs =
     (case outcome of
        ReportlabWrites \<Rightarrow> Inr (write_temp i [FailureNotice] fs)
      | ManualWrites \<Rightarrow> Inr (write_temp i [BlankPage] fs)
      | ManualWriteRaises \<Rightarrow> Inl Raised
      | CreationFails \<Rightarrow> Inr fs)"

definition capture_page :: "session \<Rightarrow> nat \<Rightarrow> file_system \<Rightarrow> abort + file_system" where
  "capture_page e i fs =
     (case fst (capture_attempts e i [0..<max_retries]) of
        Some img \<Rightarrow> Inr (write_temp i [img] fs)
      | None \<Rightarrow> create_blank_pdf (blank_result e i) i fs)"

text \<open>
  The loop over the page elements, \<^verbatim>\<open>for i, page in enumerate(pages, 1)\<close>, with the
  list \<^verbatim>\<open>temp_pdfs\<close>. It ends early when the callback says stop or something raises.
\<close>

fun capture_pages ::
  "session \<Rightarrow> nat list \<Rightarrow> file_system \<Rightarrow> nat list \<Rightarrow> abort option \<times> file_system \<times> nat list" where
  "capture_pages e [] fs temp_pdfs = (None, fs, temp_pdfs)"
| "capture_pages e (i # later) fs temp_pdfs =
     (if stop_before_page e i then (Some Cancelled, fs, temp_pdfs)
      else if \<not> scroll_to_element_ok e i then (Some Raised, fs, temp_pdfs)
      else (case capture_page e i fs of
              Inl a \<Rightarrow> (Some a, fs, temp_pdfs)
            | Inr fs' \<Rightarrow> capture_pages e later fs' (temp_pdfs @ [i])))"

subsection \<open>Merging and cleaning up\<close>

text \<open>
  \<^verbatim>\<open>PdfMerger.append\<close> adds all pages of a file, in their order, and raises on a file
  it cannot read.
\<close>

fun merger_append :: "file_system \<Rightarrow> nat list \<Rightarrow> pdf \<Rightarrow> pdf option" where
  "merger_append fs [] merged = Some merged"
| "merger_append fs (p # ps) merged =
     (case read_temp fs p of
        None \<Rightarrow> None
      | Some doc \<Rightarrow> merger_append fs ps (merged @ doc))"

text \<open>
  \<^verbatim>\<open>_merge_pdfs\<close>. Each call imports PyPDF2 anew; after a failed import and a
  successful install it calls itself. The list gives the outcomes of the successive
  imports, and runs out where Python's recursion limit is hit. Every failure is raised
  to the caller.
\<close>

fun merge_pdfs :: "import_outcome list \<Rightarrow> bool \<Rightarrow> file_system \<Rightarrow> nat list \<Rightarrow> abort + file_system" where
  "merge_pdfs [] write_ok fs pdf_files = Inl Raised"
| "merge_pdfs (Imported # later) write_ok fs pdf_files =
     (case merger_append fs pdf_files [] of
        None \<Rightarrow> Inl Raised
      | Some merged \<Rightarrow> if write_ok then Inr (fs\<lparr>output_file := Some merged\<rparr>) else Inl Raised)"
| "merge_pdfs (Missing pip_ok # later) write_ok fs pdf_files =
     (if pip_ok then merge_pdfs later write_ok fs pdf_files else Inl Raised)"

text \<open>
  The cleanup: \<^verbatim>\<open>os.remove\<close> for each path and \<^verbatim>\<open>os.rmdir\<close> for the directory,
  each in a \<^verbatim>\<open>try\<close> whose \<^verbatim>\<open>except\<close> passes. A directory that still has files in
  it is not removed.
\<close>

fun remove_files :: "(nat \<Rightarrow> bool) \<Rightarrow> nat list \<Rightarrow> (nat \<times> pdf) list \<Rightarrow> (nat \<times> pdf) list" where
  "remove_files ok [] files = files"
| "remove_files ok (p # ps) files =
     remove_files ok ps (if ok p then filter (\<lambda>(k, d). k \<noteq> p) files else files)"

definition cleanup :: "session \<Rightarrow> nat list \<Rightarrow> file_system \<Rightarrow> file_system" where
  "cleanup e temp_pdfs fs =
     (if rmdir_ok e \<and> remove_files (remove_ok e) temp_pdfs (temp_files fs) = []
      then fs\<lparr>temp_files := [], temp_dir := False\<rparr>
      else fs\<lparr>temp_files := remove_files (remove_ok e) temp_pdfs (temp_files fs)\<rparr>)"

text \<open>The end of \<^verbatim>\<open>download_as_pdf\<close>, from \<^verbatim>\<open>Merging PDFs...\<close> on.\<close>

definition merge_and_cleanup :: "session \<Rightarrow> file_system \<Rightarrow> nat list \<Rightarrow> bool \<times> file_system" where
  "merge_and_cleanup e fs temp_pdfs =
     (case merge_pdfs (pypdf2_imports e) (merger_write_ok e) fs temp_pdfs of
        Inl a \<Rightarrow> (False, fs)
      | Inr merged \<Rightarrow> (True, cleanup e temp_pdfs merged))"

text \<open>
  \<^verbatim>\<open>download_as_pdf\<close>: the value returned and the file system left behind, or
  \<open>None\<close> if the scrolling never ends. Every exception ends in the outer
  \<^verbatim>\<open>except\<close> clause, which returns \<^verbatim>\<open>False\<close>. Closing the session in the
  \<^verbatim>\<open>finally\<close> clause is taken to go through.
\<close>

definition download_as_pdf :: "string \<Rightarrow> session \<Rightarrow> file_system \<Rightarrow> (bool \<times> file_system) option" where
  "download_as_pdf url e fs =
     (if \<not> setup_driver_ok e then Some (False, fs)
      else (case extract_doc_id url of
              None \<Rightarrow> Some (False, fs)
            | Some doc_id \<Rightarrow>
                if \<not> load_ok e (embed_url doc_id) then Some (False, fs)
                else (case auto_scroll_and_load (first_height e) (scrolling e) of
                        None \<Rightarrow> None
                      | Some (Inl err) \<Rightarrow> Some (False, fs)
                      | Some (Inr loaded) \<Rightarrow>
                          if stop_after_scroll e then Some (False, fs)
                          else if page_elements e = 0 then Some (False, fs)
                          else if \<not> makedirs_ok e then Some (False, fs)
                          else (case capture_pages e [1..<Suc (page_elements e)]
                                       (fs\<lparr>temp_dir := True\<rparr>) [] of
                                  (Some a, fs', temp_pdfs) \<Rightarrow> Some (False, fs')
                                | (None, fs', temp_pdfs) \<Rightarrow>
                                    Some (merge_and_cleanup e fs' temp_pdfs)))))"

subsection \<open>Sessions for trying the run\<close>

definition fresh_fs :: file_system where
  "fresh_fs = \<lparr>temp_files = [], temp_dir = False, output_file = None\<rparr>"

definition short_page :: browser where
  "short_page = \<lparr>check_stop = (\<lambda>n. False), pages_before = (\<lambda>n. 10), scroll_to_ok = (\<lambda>n. True),
     pages_after = (\<lambda>n. 10), page_height = (\<lambda>n. Some 1600),
     scroll_offset = (\<lambda>n. Some (min (800 * int n) 520))\<rparr>"

text \<open>Ten pages; everything works, except that page 4 cannot be captured at any attempt
  and reportlab is not installed.\<close>

definition ten_pages :: session where
  "ten_pages = \<lparr>setup_driver_ok = True, load_ok = (\<lambda>u. True), first_height = Some 1600,
     scrolling = short_page, stop_after_scroll = False, page_elements = 10,
     makedirs_ok = True, stop_before_page = (\<lambda>i. False), scroll_to_element_ok = (\<lambda>i. True),
     print_ok = (\<lambda>i attempt. i \<noteq> 4), screenshot_ok = (\<lambda>i attempt. False),
     blank_result = (\<lambda>i. ManualWrites), pypdf2_imports = [Imported],
     merger_write_ok = True, remove_ok = (\<lambda>i. True), rmdir_ok = True\<rparr>"

text \<open>The same, but the placeholder for page 4 cannot be written either, which the last
  clause of \<^verbatim>\<open>_create_blank_pdf\<close> logs.\<close>

definition ten_pages_no_placeholder :: session where
  "ten_pages_no_placeholder = ten_pages\<lparr>blank_result := (\<lambda>i. CreationFails)\<rparr>"

text \<open>The same as \<open>ten_pages\<close>, but the merged file cannot be written.\<close>

definition ten_pages_no_merge :: session where
  "ten_pages_no_merge = ten_pages\<lparr>merger_write_ok := False\<rparr>"

text \<open>The same as \<open>ten_pages\<close>, but nothing can be removed afterwards.\<close>

definition ten_pages_no_removal :: session where
  "ten_pages_no_removal = ten_pages\<lparr>remove_ok := (\<lambda>i. False), rmdir_ok := False\<rparr>"

definition ten_artifacts :: "(nat \<times> pdf) list" where
  "ten_artifacts = [(10, [Printed 10]), (9, [Printed 9]), (8, [Printed 8]), (7, [Printed 7]),
     (6, [Printed 6]), (5, [Printed 5]), (4, [BlankPage]), (3, [Printed 3]),
     (2, [Printed 2]), (1, [Printed 1])]"

definition ten_merged :: pdf where
  "ten_merged = [Printed 1, Printed 2, Printed 3, BlankPage, Printed 5, Printed 6,
     Printed 7, Printed 8, Printed 9, Printed 10]"

definition example_url :: string where
  "example_url = ''https://www.scribd.com/document/799698609/Price-Action''"
section \<open>The locator\<close>

subsection \<open>What the search finds\<close>

lemma match_alternatives_None_iff:
  "match_alternatives ls s = None \<longleftrightarrow>
   (\<forall>l \<in> set ls. \<not> (prefix (l @ ''/'') s \<and> takeWhile is_digit (drop (length l + 1) s) \<noteq> []))"
  by (induction ls) auto

lemma search_doc_id_None_iff:
  "search_doc_id s = None \<longleftrightarrow> (\<forall>t. suffix t s \<longrightarrow> match_doc_id_at t = None)"
proof (induction s)
  case Nil
  then show ?case by simp
next
  case (Cons c cs)
  then show ?case
    by (auto simp: suffix_Cons split: option.splits)
qed

lemma takeWhile_nonempty_iff:
  "takeWhile P xs \<noteq> [] \<longleftrightarrow> (\<exists>c rest. xs = c # rest \<and> P c)"
  by (cases xs) auto

lemma match_doc_id_at_None_iff:
  "match_doc_id_at t = None \<longleftrightarrow>
   \<not> (\<exists>l c rest. l \<in> set doc_literals \<and> is_digit c \<and> t = l @ ''/'' @ c # rest)"
proof -
  have "(prefix (l @ ''/'') t \<and> takeWhile is_digit (drop (length l + 1) t) \<noteq> [])
        \<longleftrightarrow> (\<exists>c rest. is_digit c \<and> t = l @ ''/'' @ c # rest)" for l
    by (auto simp: prefix_def takeWhile_nonempty_iff)
  then show ?thesis
    unfolding match_doc_id_at_def match_alternatives_None_iff by blast
qed

lemma search_doc_id_None_substring:
  "search_doc_id url = None \<longleftrightarrow>
   \<not> (\<exists>pre l c rest. l \<in> set doc_literals \<and> is_digit c \<and> url = pre @ l @ ''/'' @ c # rest)"
proof -
  have "search_doc_id url = None \<longleftrightarrow> (\<forall>t. suffix t url \<longrightarrow> match_doc_id_at t = None)"
    by (rule search_doc_id_None_iff)
  also have "\<dots> \<longleftrightarrow> \<not> (\<exists>pre l c rest. l \<in> set doc_literals \<and> is_digit c
      \<and> url = pre @ l @ ''/'' @ c # rest)"
    unfolding match_doc_id_at_None_iff suffix_def by blast
  finally show ?thesis .
qed

subsection \<open>No match starts before a literal and ends inside it\<close>

lemma literal_not_digit_headed:
  "l \<in> set doc_literals \<Longrightarrow> is_digit c \<Longrightarrow> l @ xs \<noteq> c # r"
  by (auto simp: doc_literals_def is_digit_def)

lemma literal_overlap:
  assumes "L \<in> set doc_literals" "l \<in> set doc_literals"
    and "pre @ us = L @ ''/''" "pre \<noteq> []" "us \<noteq> []"
  shows "l @ ''/'' @ xs \<noteq> us @ ys"
  using assms
  by (auto simp: doc_literals_def append_eq_Cons_conv Cons_eq_append_conv)

lemma no_straddle:
  assumes l: "l \<in> set doc_literals" and pre: "match_doc_id_at pre = None" and ne: "pre \<noteq> []"
  shows "match_doc_id_at (pre @ l @ ''/'' @ ds @ rest) = None"
proof (rule ccontr)
  assume "match_doc_id_at (pre @ l @ ''/'' @ ds @ rest) \<noteq> None"
  then obtain L c r where L: "L \<in> set doc_literals" and c: "is_digit c"
    and eq: "pre @ (l @ ''/'' @ ds @ rest) = (L @ ''/'') @ (c # r)"
    unfolding match_doc_id_at_None_iff by auto
  from eq obtain us where
    "(pre = (L @ ''/'') @ us \<and> us @ (l @ ''/'' @ ds @ rest) = c # r)
     \<or> (pre @ us = L @ ''/'' \<and> l @ ''/'' @ ds @ rest = us @ c # r)"
    unfolding append_eq_append_conv2 by blast
  then show False
  proof
    assume a: "pre = (L @ ''/'') @ us \<and> us @ (l @ ''/'' @ ds @ rest) = c # r"
    show False
    proof (cases us)
      case Nil
      with a l c show False using literal_not_digit_headed by force
    next
      case (Cons u us')
      with a have "u = c" by simp
      with a Cons have "pre = L @ ''/'' @ c # us'" by simp
      with L c pre show False unfolding match_doc_id_at_None_iff by blast
    qed
  next
    assume b: "pre @ us = L @ ''/'' \<and> l @ ''/'' @ ds @ rest = us @ c # r"
    show False
    proof (cases "us = []")
      case True
      with b l c show False using literal_not_digit_headed by force
    next
      case False
      with b L l ne show False using literal_overlap by blast
    qed
  qed
qed

lemma search_doc_id_skip:
  "l \<in> set doc_literals \<Longrightarrow> search_doc_id pre = None \<Longrightarrow>
   search_doc_id (pre @ l @ ''/'' @ ds @ rest) = search_doc_id (l @ ''/'' @ ds @ rest)"
proof (induction pre)
  case Nil
  then show ?case by simp
next
  case (Cons c cs)
  from Cons.prems(2) have m: "match_doc_id_at (c # cs) = None" and s: "search_doc_id cs = None"
    by (auto split: option.splits)
  from no_straddle [OF Cons.prems(1) m]
  have "match_doc_id_at ((c # cs) @ l @ ''/'' @ ds @ rest) = None" by simp
  then have "search_doc_id ((c # cs) @ l @ ''/'' @ ds @ rest)
      = search_doc_id (cs @ l @ ''/'' @ ds @ rest)" by simp
  with Cons.IH [OF Cons.prems(1) s] show ?case by simp
qed

lemma takeWhile_digits_then_stop:
  assumes "list_all is_digit ds" "rest = [] \<or> \<not> is_digit (hd rest)"
  shows "takeWhile is_digit (ds @ rest) = ds"
proof -
  have "takeWhile is_digit rest = []"
    using assms(2) by (cases rest) auto
  moreover have "\<forall>d \<in> set ds. is_digit d"
    using assms(1) by (simp add: list_all_iff)
  ultimately show ?thesis by (simp add: takeWhile_append2)
qed

lemma search_doc_id_at_literal:
  assumes "l \<in> set doc_literals" "ds \<noteq> []" "list_all is_digit ds"
    "rest = [] \<or> \<not> is_digit (hd rest)"
  shows "search_doc_id (l @ ''/'' @ ds @ rest) = Some ds"
proof -
  have t: "takeWhile is_digit (ds @ rest) = ds"
    using assms(3,4) by (rule takeWhile_digits_then_stop)
  from assms(1) have "l = ''doc'' \<or> l = ''document'' \<or> l = ''embeds''"
    by (simp add: doc_literals_def)
  then show ?thesis
    using t assms(2) by (auto simp: match_doc_id_at_def doc_literals_def)
qed

text \<open>
  C1, as amended. \<^verbatim>\<open>get_doc_id\<close> fails exactly when the reference nowhere holds one
  of \<^verbatim>\<open>doc\<close>, \<^verbatim>\<open>document\<close>, \<^verbatim>\<open>embeds\<close> followed by a slash and a digit, as plain
  substrings: the literal need not be a whole path segment. When the reference is a
  prefix without such a match, then one of the three literals, a slash, a non-empty run of
  digits and a rest that is empty or starts with a non-digit, the result is that run of
  digits, whichever literal was used.
\<close>

theorem get_doc_id_substring_search:
  "(get_doc_id url = None \<longleftrightarrow>
      \<not> (\<exists>pre l c rest. l \<in> set doc_literals \<and> is_digit c \<and> url = pre @ l @ ''/'' @ c # rest))
   \<and> (l \<in> set doc_literals \<and> ds \<noteq> [] \<and> list_all is_digit ds
        \<and> (rest = [] \<or> \<not> is_digit (hd rest)) \<and> get_doc_id pre = None
      \<longrightarrow> get_doc_id (pre @ l @ ''/'' @ ds @ rest) = Some ds)"
proof -
  have g: "get_doc_id u = search_doc_id u" for u
    by (simp add: get_doc_id_def split: option.splits)
  show ?thesis
    unfolding g
    using search_doc_id_None_substring [of url] search_doc_id_skip [of l pre ds rest]
      search_doc_id_at_literal [of l ds rest]
    by simp
qed

theorem get_doc_id_substring_search_witness:
  "get_doc_id ''https://www.scribd.com/document/799698609/Price-Action'' = Some ''799698609''
   \<and> get_doc_id ''https://www.scribd.com/doc/799698609/Some-Title'' = Some ''799698609''
   \<and> get_doc_id ''https://www.scribd.com/embeds/799698609/content'' = Some ''799698609''"
proof -
  have n: "get_doc_id ''https://www.scribd.com/'' = None"
    by (simp add: get_doc_id_def match_doc_id_at_def doc_literals_def)
  have d: "list_all is_digit ''799698609''"
    by (simp add: is_digit_def)
  have "get_doc_id (''https://www.scribd.com/'' @ ''document'' @ ''/'' @ ''799698609'' @ ''/Price-Action'')
      = Some ''799698609''"
    using get_doc_id_substring_search
      [of "[]" "''document''" "''799698609''" "''/Price-Action''" "''https://www.scribd.com/''"] n d
    by (simp add: doc_literals_def is_digit_def)
  moreover have "get_doc_id (''https://www.scribd.com/'' @ ''doc'' @ ''/'' @ ''799698609'' @ ''/Some-Title'')
      = Some ''799698609''"
    using get_doc_id_substring_search
      [of "[]" "''doc''" "''799698609''" "''/Some-Title''" "''https://www.scribd.com/''"] n d
    by (simp add: doc_literals_def is_digit_def)
  moreover have "get_doc_id (''https://www.scribd.com/'' @ ''embeds'' @ ''/'' @ ''799698609'' @ ''/content'')
      = Some ''799698609''"
    using get_doc_id_substring_search
      [of "[]" "''embeds''" "''799698609''" "''/content''" "''https://www.scribd.com/''"] n d
    by (simp add: doc_literals_def is_digit_def)
  ultimately show ?thesis by simp
qed

text \<open>
  C1 as the specification states it fails: in \<^verbatim>\<open>https://example.com/mydoc/123\<close> no
  path segment is one of the three literals, and an id is returned all the same.
\<close>

theorem get_doc_id_segment_counterexample:
  "\<not> spec_recognized_shape ''https://example.com/mydoc/123''
   \<and> get_doc_id ''https://example.com/mydoc/123'' = Some ''123''"
  by (simp add: spec_recognized_shape_def get_doc_id_def match_doc_id_at_def
      doc_literals_def is_digit_def)

lemma get_doc_id_examples:
  "get_doc_id ''https://example.com/notadoc'' = None"
  "get_doc_id ''https://www.scribd.com/doc/12ab'' = Some ''12''"
  "spec_recognized_shape ''https://www.scribd.com/document/799698609/Price-Action''"
  by (simp_all add: spec_recognized_shape_def get_doc_id_def match_doc_id_at_def
      doc_literals_def is_digit_def)

text \<open>
  C10. The two extractors, \<^verbatim>\<open>get_doc_id\<close> of the static module and
  \<^verbatim>\<open>_extract_doc_id\<close> of the dynamic one, return the same id or both fail, on every
  reference; so the canonical endpoint built from the id is the same too.
\<close>

theorem doc_id_extractors_agree:
  "extract_doc_id url = get_doc_id url
   \<and> map_option embed_url (extract_doc_id url) = map_option embed_url (get_doc_id url)"
  by (simp add: extract_doc_id_def get_doc_id_def)

section \<open>Title sanitising\<close>

lemma foldl_replace_chr:
  "foldl (\<lambda>t ch. replace_chr ch r t) t cs = map (\<lambda>c. if c \<in> set cs then r else c) t"
  by (induction cs arbitrary: t) (auto simp: replace_chr_def)

lemma sanitize_title_map:
  "sanitize_title t = map (\<lambda>c. if c \<in> set forbidden_chars then CHR ''_'' else c) t"
  by (simp add: sanitize_title_def foldl_replace_chr replace_char_def)

text \<open>
  C2. \<^verbatim>\<open>sanitize_title\<close> replaces each of the ten forbidden characters by an
  underscore and leaves every other character as it is; the length is kept, and
  sanitising twice is sanitising once.
\<close>

theorem sanitize_title_spec:
  "sanitize_title t = map (\<lambda>c. if c \<in> set forbidden_chars then CHR ''_'' else c) t
   \<and> length (sanitize_title t) = length t
   \<and> sanitize_title (sanitize_title t) = sanitize_title t
   \<and> set forbidden_chars = {CHR '' '', CHR ''*'', CHR 0x22, CHR ''/'', CHR 0x5C,
        CHR ''<'', CHR ''>'', CHR '':'', CHR ''|'', CHR ''?''}"
  by (simp add: sanitize_title_map) (simp add: forbidden_chars_def)

lemma sanitize_title_example:
  "sanitize_title (''My/Title: With*Forbidden'' @ [CHR 0x22] @ ''Chars'')
   = ''My_Title__With_Forbidden_Chars''"
  by (simp add: sanitize_title_map forbidden_chars_def)

section \<open>The lazy-load driver terminates\<close>

lemma pass_invariant_initial: "pass_invariant b 1 initial_scroll_state"
  by (simp add: pass_invariant_def initial_scroll_state_def)

lemma pass_invariant_count_pass:
  assumes "pass_invariant b n s" "1 \<le> n"
  shows "pass_invariant b (Suc n) (count_pass (pages_before b n) (pages_after b n) s)"
proof (cases "pages_after b n > pages_before b n")
  case True
  with assms show ?thesis
    by (simp add: pass_invariant_def count_pass_def)
next
  case False
  have "pages_after b j \<le> pages_before b j"
    if "j < Suc n" "Suc n \<le> j + (no_new_content_count s + 1)" for j
  proof (cases "j = n")
    case True
    with False show ?thesis by simp
  next
    case False
    with that have "j < n" "n \<le> j + no_new_content_count s" by simp_all
    with assms(1) show ?thesis by (simp add: pass_invariant_def)
  qed
  with False assms show ?thesis
    by (simp add: pass_invariant_def count_pass_def)
qed

text \<open>
  If some pass \<open>K\<close> reports a height that \<open>K\<close> increments of 800 reach, the loop started
  at any pass up to \<open>K\<close> returns: by induction on the passes left.
\<close>

lemma scroll_loop_terminates_from:
  assumes K: "page_height b K = Some H" "H \<le> 800 * int K"
  shows "n \<le> K \<Longrightarrow> 1 \<le> n \<Longrightarrow> pass_invariant b n s \<Longrightarrow>
    \<exists>r. scroll_loop b n s = Some r \<and> exit_ok b r"
proof (induction "K - n" arbitrary: n s)
  case 0
  then have n: "n = K" by simp
  let ?s = "count_pass (pages_before b n) (pages_after b n) s"
  have inv: "pass_invariant b (Suc n) ?s"
    using 0 by (simp add: pass_invariant_count_pass)
  then have "scroll_position ?s = 800 * int K"
    using n by (simp add: pass_invariant_def)
  with K have e: "end_condition cur H ?s" for cur
    by (simp add: end_condition_def)
  show ?case
    using K(1) e inv n
    by (subst scroll_loop.simps) (auto simp: exit_ok_def end_condition_def split: option.splits)
next
  case (Suc d)
  let ?s = "count_pass (pages_before b n) (pages_after b n) s"
  have inv: "pass_invariant b (Suc n) ?s"
    using Suc.prems by (simp add: pass_invariant_count_pass)
  from Suc.hyps(2) Suc.prems have "d = K - Suc n" "Suc n \<le> K" "1 \<le> Suc n" by simp_all
  from Suc.hyps(1) [OF this inv]
  obtain r where r: "scroll_loop b (Suc n) ?s = Some r" "exit_ok b r" by blast
  show ?case
    using r inv
    by (subst scroll_loop.simps) (auto simp: exit_ok_def end_condition_def split: option.splits)
qed

lemma scroll_loop_terminates:
  assumes "\<forall>n\<ge>N. page_height b n = Some H"
  shows "\<exists>r. scroll_loop b 1 initial_scroll_state = Some r \<and> exit_ok b r"
proof -
  define K where "K = max (max N 1) (nat H)"
  have "page_height b K = Some H" "H \<le> 800 * int K" "1 \<le> K"
    using assms by (auto simp: K_def)
  from scroll_loop_terminates_from [OF this(1,2) this(3) _ pass_invariant_initial]
  show ?thesis by simp
qed

text \<open>
  C3, as amended. If the scrollable height reported is the same from some pass on, the
  loop of \<^verbatim>\<open>_auto_scroll_and_load\<close> returns after finitely many passes, and so does
  the function. When the stop condition ends it while the requested position is still
  below the height (so its first disjunct decided), the offset read back plus 1080 has
  reached the height and the counter is at least 3, not exactly 3; and the counter never
  exceeds the number of increments made, the last so many of which all found no more
  pages after the increment than before it.
\<close>

theorem auto_scroll_terminates:
  assumes "\<forall>n\<ge>N. page_height b n = Some H"
  shows "(\<exists>res. auto_scroll_and_load (Some H0) b = Some res)
    \<and> (\<exists>r. scroll_loop b 1 initial_scroll_state = Some r
         \<and> (\<forall>cur h s. r = Inr (ReachedEnd cur h, s) \<longrightarrow>
              (scroll_position s < h \<longrightarrow> h \<le> cur + 1080 \<and> 3 \<le> no_new_content_count s)
              \<and> (\<exists>m. scroll_position s = 800 * int m \<and> no_new_content_count s \<le> m
                   \<and> (\<forall>j. j \<le> m \<and> m < j + no_new_content_count s
                          \<longrightarrow> pages_after b j \<le> pages_before b j))))"
proof -
  from scroll_loop_terminates [OF assms]
  obtain r where r: "scroll_loop b 1 initial_scroll_state = Some r" "exit_ok b r" by blast
  have "\<exists>res. auto_scroll_and_load (Some H0) b = Some res"
    using r(1) by (auto simp: auto_scroll_and_load_def split: sum.splits prod.splits)
  moreover have "(scroll_position s < h \<longrightarrow> h \<le> cur + 1080 \<and> 3 \<le> no_new_content_count s)
       \<and> (\<exists>m. scroll_position s = 800 * int m \<and> no_new_content_count s \<le> m
            \<and> (\<forall>j. j \<le> m \<and> m < j + no_new_content_count s
                   \<longrightarrow> pages_after b j \<le> pages_before b j))"
    if "r = Inr (ReachedEnd cur h, s)" for cur h s
  proof -
    from r(2) that obtain m where
      a: "scroll_position s < h \<longrightarrow> h \<le> cur + 1080 \<and> 3 \<le> no_new_content_count s"
      and m: "pass_invariant b (Suc m) s"
      by (auto simp: exit_ok_def)
    from m have "scroll_position s = 800 * int m \<and> no_new_content_count s \<le> m
        \<and> (\<forall>j. j \<le> m \<and> m < j + no_new_content_count s
              \<longrightarrow> pages_after b j \<le> pages_before b j)"
      by (auto simp: pass_invariant_def)
    with a show ?thesis by blast
  qed
  ultimately show ?thesis using r(1) by blast
qed

theorem auto_scroll_terminates_witness:
  "\<exists>res. auto_scroll_and_load (Some 10000) tall_page = Some res"
proof -
  have "\<forall>n\<ge>0. page_height tall_page n = Some 10000"
    by (simp add: tall_page_def)
  from auto_scroll_terminates [OF this, of 10000] show ?thesis by blast
qed

text \<open>
  C3 as the specification states it fails. On the tall page nothing is ever added, the
  first disjunct of the stop condition ends the loop at the twelfth pass (8920 + 1080
  reaches 10000, while 9600 does not), and the counter stands at 12.
\<close>

theorem auto_scroll_counter_counterexample:
  "scroll_loop tall_page 1 initial_scroll_state =
     Some (Inr (ReachedEnd 8920 10000,
       \<lparr>scroll_position = 9600, page_count = 0, no_new_content_count = 12\<rparr>))"
  by (simp add: scroll_loop.simps tall_page_def initial_scroll_state_def count_pass_def
      end_condition_def)

subsection \<open>Cancellation\<close>

text \<open>
  The callback is asked at the head of every pass, before the increment of that pass;
  when it answers yes, the loop returns at once with the state as it was: no increment,
  no error.
\<close>

lemma scroll_loop_cancelled:
  "check_stop b n \<Longrightarrow> scroll_loop b n s = Some (Inr (StoppedByUser, s))"
  by (subst scroll_loop.simps) simp

lemma scroll_loop_not_cancelled:
  "\<not> check_stop b n \<Longrightarrow> scroll_to_ok b n \<Longrightarrow> page_height b n = Some h \<Longrightarrow>
   scroll_offset b n = Some cur \<Longrightarrow>
   \<not> end_condition cur h (count_pass (pages_before b n) (pages_after b n) s) \<Longrightarrow>
   scroll_loop b n s = scroll_loop b (n + 1) (count_pass (pages_before b n) (pages_after b n) s)"
  by (subst scroll_loop.simps) simp

text \<open>
  C8, at the failing input. Five pages are on the page from the start and stay there; the
  user cancels at the second poll, after one increment. The function returns 0, not 5:
  \<^verbatim>\<open>page_count\<close> starts at 0 and is only set by a pass that found more pages after its
  increment than before.
\<close>

theorem auto_scroll_cancelled_page_count:
  "auto_scroll_and_load (Some 10000) tall_page_cancelled = Some (Inr 0)
   \<and> pages_before tall_page_cancelled 1 = 5 \<and> pages_after tall_page_cancelled 1 = 5
   \<and> scroll_loop tall_page_cancelled 1 initial_scroll_state =
       Some (Inr (StoppedByUser,
         \<lparr>scroll_position = 800, page_count = 0, no_new_content_count = 1\<rparr>))"
  by (simp add: auto_scroll_and_load_def scroll_loop.simps tall_page_cancelled_def
      tall_page_def initial_scroll_state_def count_pass_def end_condition_def)

section \<open>The static retriever\<close>

subsection \<open>Only the first event is a fetch\<close>

lemma is_fetch_simps [simp]:
  "is_fetch (Fetch u)" "\<not> is_fetch (Save j m n)" "\<not> is_fetch (Info l)" "\<not> is_fetch (Error l)"
  by (simp_all add: is_fetch_def)

lemma save_content_no_fetch: "list_all (\<lambda>ev. \<not> is_fetch ev) (fst (save_content jsonp mode train))"
  by (simp add: save_content_def)

lemma legacy_loop_no_fetch: "list_all (\<lambda>ev. \<not> is_fetch ev) (legacy_loop stop k mode ss train)"
  by (induction ss arbitrary: k train)
    (auto simp: save_content_no_fetch split: option.splits)

lemma save_matches_no_fetch:
  "list_all (\<lambda>ev. \<not> is_fetch ev) (fst (save_matches stop k mode ms train))"
proof (induction ms arbitrary: k train)
  case Nil
  then show ?case by simp
next
  case (Cons m ms)
  let ?train = "snd (save_content (unescape_slashes m) mode train)"
  obtain evs k' train' where r: "save_matches stop (k + 1) mode ms ?train = (evs, k', train')"
    by (cases "save_matches stop (k + 1) mode ms ?train") auto
  from Cons [of "k + 1" ?train] r have "list_all (\<lambda>ev. \<not> is_fetch ev) evs" by simp
  with r show ?case by (simp add: save_content_no_fetch)
qed

lemma structured_loop_no_fetch:
  "list_all (\<lambda>ev. \<not> is_fetch ev) (structured_loop stop k mode ss train)"
proof (induction ss arbitrary: k train)
  case Nil
  then show ?case by simp
next
  case (Cons s ss)
  show ?case
  proof (cases s)
    case None
    with Cons show ?thesis by simp
  next
    case (Some str)
    obtain evs k' train' where
      m: "save_matches stop (k + 1) mode (findall_content_url 0 str) train = (evs, k', train')"
      by (cases "save_matches stop (k + 1) mode (findall_content_url 0 str) train") auto
    from save_matches_no_fetch [of stop "k + 1" mode "findall_content_url 0 str" train] m
    have "list_all (\<lambda>ev. \<not> is_fetch ev) evs" by simp
    with Some m Cons show ?thesis by simp
  qed
qed

lemma discover_no_fetch: "list_all (\<lambda>ev. \<not> is_fetch ev) (discover stop mode ss)"
  by (simp add: discover_def legacy_loop_no_fetch structured_loop_no_fetch)

text \<open>
  C7, as amended. Once the id is extracted, \<^verbatim>\<open>get_scribd_document\<close> fetches one URL:
  in html mode the canonical endpoint built from the id, whatever shape the reference
  had; in every other mode the reference itself, unchanged.
\<close>

theorem static_fetch_target:
  assumes "get_doc_id url = Some doc_id"
  shows "filter is_fetch (get_scribd_document url mode stop fetch)
     = [Fetch (if mode = ''html'' then ''https://www.scribd.com/embeds/'' @ doc_id @ ''/content''
               else url)]"
proof -
  have "filter is_fetch (discover stop m ss) = []" for m ss
    using discover_no_fetch [of stop m ss] by (simp add: list_all_iff filter_empty_conv)
  with assms show ?thesis
    by (simp add: get_scribd_document_def target_url_def embed_url_def
        split: option.splits)
qed

theorem static_fetch_target_witness:
  "filter is_fetch (get_scribd_document ''https://www.scribd.com/document/799698609/Price-Action''
      ''html'' never_stop (example_fetch []))
   = [Fetch ''https://www.scribd.com/embeds/799698609/content'']"
proof -
  have "get_doc_id ''https://www.scribd.com/document/799698609/Price-Action'' = Some ''799698609''"
    by (simp add: get_doc_id_def match_doc_id_at_def doc_literals_def is_digit_def)
  from static_fetch_target [OF this, of "''html''" never_stop "example_fetch []"]
  show ?thesis by simp
qed

text \<open>
  C7 as the specification states it fails: in text mode the reference itself is fetched,
  not the canonical endpoint.
\<close>

theorem static_fetch_text_mode_counterexample:
  "get_scribd_document ''https://www.scribd.com/document/799698609/Price-Action''
      ''text'' never_stop (example_fetch [])
   = [Fetch ''https://www.scribd.com/document/799698609/Price-Action'',
      Info ''Downloading Price_Action in text mode'',
      Info ''Parsing scripts for contentUrl...'']"
  by (simp add: get_scribd_document_def get_doc_id_def match_doc_id_at_def doc_literals_def
      is_digit_def target_url_def example_fetch_def sanitize_title_def replace_chr_def
      forbidden_chars_def replace_char_def discover_def has_legacy_callback_def parsing_line_def)

subsection \<open>Which form of descriptor is read\<close>

lemma find_sub_suffix:
  "suffix t s \<Longrightarrow> prefix pat t \<Longrightarrow> find_sub pat s \<noteq> None"
proof (induction s)
  case Nil
  then show ?case by simp
next
  case (Cons c cs)
  then show ?case by (auto simp: suffix_Cons)
qed

lemma marker_has_both_substrings:
  assumes "has_callback_marker s"
  shows "s \<noteq> [] \<and> contains ''window.page'' s \<and> contains ''_callback'' s"
proof -
  from assms obtain t where t: "suffix t s" "callback_marker_at t"
    by (auto simp: has_callback_marker_def list_ex_iff)
  from t(2) have p: "prefix ''window.page'' t"
    and q: "prefix ''_callback'' (dropWhile is_digit (drop 11 t))"
    by (simp_all add: callback_marker_at_def)
  from p have "t \<noteq> []" by auto
  with t(1) have "s \<noteq> []" by auto
  moreover from t(1) p have "contains ''window.page'' s"
    unfolding contains_def by (rule find_sub_suffix)
  moreover have "suffix (dropWhile is_digit (drop 11 t)) s"
    using suffix_dropWhile suffix_drop t(1) suffix_order.trans by blast
  then have "contains ''_callback'' s"
    unfolding contains_def using q by (rule find_sub_suffix)
  ultimately show ?thesis by simp
qed

lemma marker_detected:
  "Some inner \<in> set ss \<Longrightarrow> has_callback_marker inner \<Longrightarrow> has_legacy_callback ss"
  using marker_has_both_substrings [of inner]
  by (force simp: has_legacy_callback_def list_ex_iff)

lemma legacy_loop_no_parsing_line:
  "Info parsing_line \<notin> set (legacy_loop stop k mode ss train)"
  by (induction ss arbitrary: k train)
    (auto simp: save_content_def parsing_line_def split: option.splits)

text \<open>
  C9. When some script of the fetched markup holds the legacy marker
  \<^verbatim>\<open>window.page<N>_callback\<close>, the run is the fetch, its log line and the legacy loop
  over the scripts, and the line that opens the structured scan is not in it; so a run
  that has this line, that is one that scans for \<^verbatim>\<open>contentUrl\<close>, had the marker in
  no script.
\<close>

theorem legacy_form_takes_precedence:
  assumes "get_doc_id url = Some doc_id"
    and "fetch (target_url url mode doc_id) = Some soup"
  shows "((\<exists>inner. Some inner \<in> set (scripts soup) \<and> has_callback_marker inner) \<longrightarrow>
           drop 2 (get_scribd_document url mode stop fetch)
             = legacy_loop stop 0 mode (scripts soup) 1
           \<and> Info parsing_line \<notin> set (get_scribd_document url mode stop fetch))
    \<and> (Info parsing_line \<in> set (get_scribd_document url mode stop fetch) \<longrightarrow>
           \<not> (\<exists>inner. Some inner \<in> set (scripts soup) \<and> has_callback_marker inner)
           \<and> drop 3 (get_scribd_document url mode stop fetch)
               = structured_loop stop 0 mode (scripts soup) 1)"
proof -
  have run: "get_scribd_document url mode stop fetch
      = Fetch (target_url url mode doc_id)
        # Info (''Downloading '' @ sanitize_title
             (case title_tag soup of None \<Rightarrow> ''Scribd_Document_'' @ doc_id | Some t \<Rightarrow> t)
             @ '' in '' @ mode @ '' mode'')
        # discover stop mode (scripts soup)"
    using assms by (simp add: get_scribd_document_def)
  have head: "Info parsing_line \<in> set (get_scribd_document url mode stop fetch)
      \<longleftrightarrow> Info parsing_line \<in> set (discover stop mode (scripts soup))"
    unfolding run by (simp add: parsing_line_def)
  have legacy: "discover stop mode (scripts soup) = legacy_loop stop 0 mode (scripts soup) 1"
    if "has_legacy_callback (scripts soup)"
    using that by (simp add: discover_def)
  have structured: "discover stop mode (scripts soup)
      = Info parsing_line # structured_loop stop 0 mode (scripts soup) 1"
    if "\<not> has_legacy_callback (scripts soup)"
    using that by (simp add: discover_def)
  show ?thesis
  proof (cases "has_legacy_callback (scripts soup)")
    case True
    with legacy head show ?thesis
      by (simp add: run legacy_loop_no_parsing_line)
  next
    case False
    with marker_detected have "\<not> (\<exists>inner. Some inner \<in> set (scripts soup) \<and> has_callback_marker inner)"
      by blast
    with False structured show ?thesis
      by (simp add: run)
  qed
qed

theorem legacy_form_takes_precedence_witness:
  "get_scribd_document ''https://www.scribd.com/embeds/799698609/content'' ''text'' never_stop
      (example_fetch [Some structured_script, Some legacy_script])
   = [Fetch ''https://www.scribd.com/embeds/799698609/content'',
      Info ''Downloading Price_Action in text mode'',
      Save ''https://html2-f.scribdassets.com/8u7q/pages/1-a9de.jsonp'' ''text'' 1,
      Save ''https://html2-f.scribdassets.com/8u7q/pages/1-a9de.jsonp'' ''text'' 2]
   \<and> Info parsing_line \<notin> set (get_scribd_document ''https://www.scribd.com/embeds/799698609/content''
        ''text'' never_stop (example_fetch [Some structured_script, Some legacy_script]))"
proof -
  let ?url = "''https://www.scribd.com/embeds/799698609/content''"
  let ?ss = "[Some structured_script, Some legacy_script]"
  let ?soup = "\<lparr>title_tag = Some ''Price Action'', scripts = ?ss\<rparr>"
  have id: "get_doc_id ?url = Some ''799698609''"
    by (simp add: get_doc_id_def match_doc_id_at_def doc_literals_def is_digit_def)
  have f: "example_fetch ?ss (target_url ?url ''text'' ''799698609'') = Some ?soup"
    by (simp add: example_fetch_def)
  have m: "has_callback_marker legacy_script"
    by (simp add: has_callback_marker_def legacy_script_def callback_marker_at_def is_digit_def)
  then have ex: "\<exists>inner. Some inner \<in> set (scripts ?soup) \<and> has_callback_marker inner"
    by auto
  have l: "legacy_loop never_stop 0 ''text'' ?ss 1
      = [Save ''https://html2-f.scribdassets.com/8u7q/pages/1-a9de.jsonp'' ''text'' 1,
         Save ''https://html2-f.scribdassets.com/8u7q/pages/1-a9de.jsonp'' ''text'' 2]"
    by (simp add: never_stop_def structured_script_def legacy_script_def legacy_jsonp_def
        save_content_def dquote_def)
  have h: "take 2 (get_scribd_document ?url ''text'' never_stop (example_fetch ?ss))
      = [Fetch ?url, Info ''Downloading Price_Action in text mode'']"
    by (simp add: get_scribd_document_def id target_url_def example_fetch_def
        sanitize_title_def replace_chr_def forbidden_chars_def replace_char_def)
  from legacy_form_takes_precedence
    [where fetch = "example_fetch ?ss" and stop = never_stop and mode = "''text''", OF id f] ex
  have d: "drop 2 (get_scribd_document ?url ''text'' never_stop (example_fetch ?ss))
        = legacy_loop never_stop 0 ''text'' ?ss 1"
    and n: "Info parsing_line \<notin> set (get_scribd_document ?url ''text'' never_stop (example_fetch ?ss))"
    by simp_all
  have "get_scribd_document ?url ''text'' never_stop (example_fetch ?ss)
      = take 2 (get_scribd_document ?url ''text'' never_stop (example_fetch ?ss))
        @ drop 2 (get_scribd_document ?url ''text'' never_stop (example_fetch ?ss))"
    by simp
  with h d l n show ?thesis by simp
qed

section \<open>Page capture\<close>

lemma capture_attempts_bound: "snd (capture_attempts e i attempts) \<le> length attempts"
  by (induction attempts) (auto split: prod.splits)

lemma capture_attempts_all_fail:
  "\<forall>attempt \<in> set attempts. \<not> print_ok e i attempt \<and> \<not> screenshot_ok e i attempt \<Longrightarrow>
   capture_attempts e i attempts = (None, length attempts)"
  by (induction attempts) auto

lemma capture_pages_paths:
  "capture_pages e pages fs temp_pdfs = (None, fs', temp_pdfs') \<Longrightarrow> temp_pdfs' = temp_pdfs @ pages"
proof (induction pages arbitrary: fs temp_pdfs)
  case Nil
  then show ?case by simp
next
  case (Cons i later)
  from Cons.prems obtain fs1 where
    "capture_pages e later fs1 (temp_pdfs @ [i]) = (None, fs', temp_pdfs')"
    by (auto split: if_splits sum.splits)
  from Cons.IH [OF this] show ?case by simp
qed

text \<open>
  When reportlab cannot be imported and the write by hand raises, the exception leaves
  \<^verbatim>\<open>_create_blank_pdf\<close> from inside its \<^verbatim>\<open>except ImportError\<close> clause: no path
  is appended for the page and the loop ends there.
\<close>

lemma capture_pages_manual_write_raises:
  assumes "\<forall>attempt<3. \<not> print_ok e i attempt \<and> \<not> screenshot_ok e i attempt"
    and "\<not> stop_before_page e i" and "scroll_to_element_ok e i"
    and "blank_result e i = ManualWriteRaises"
  shows "capture_pages e (i # later) fs temp_pdfs = (Some Raised, fs, temp_pdfs)"
proof -
  have "capture_attempts e i [0..<max_retries] = (None, 3)"
    using capture_attempts_all_fail [of "[0..<max_retries]" e i] assms(1)
    by (simp add: max_retries_def)
  with assms(2,3,4) show ?thesis
    by (simp add: capture_page_def create_blank_pdf_def)
qed

text \<open>
  C4, as amended. For every page at most 3 capture attempts are made. Take a page that
  the loop gets to (the callback does not cancel before it, and scrolling it into view
  does not raise) whose 3 attempts all fail, both methods each time, and for which the
  placeholder write by hand does not raise. Then the loop appends exactly one path for
  the page and goes on to the next page; under that path there is then a one-page
  placeholder, reportlab's page or the minimal PDF, if \<^verbatim>\<open>_create_blank_pdf\<close>
  could write one, and what was there before (nothing, in a fresh directory) if its
  failure was caught and logged. A loop that is not cut short has appended one path per
  page, in page order. Nothing is said here of the page whose write by hand raises.
\<close>

theorem capture_retries_and_placeholder:
  "snd (capture_attempts e i [0..<max_retries]) \<le> 3
   \<and> ((\<forall>attempt<3. \<not> print_ok e i attempt \<and> \<not> screenshot_ok e i attempt)
        \<and> \<not> stop_before_page e i \<and> scroll_to_element_ok e i
        \<and> blank_result e i \<noteq> ManualWriteRaises \<longrightarrow>
      capture_attempts e i [0..<max_retries] = (None, 3)
      \<and> capture_pages e (i # later) fs temp_pdfs
          = capture_pages e later
              (case blank_result e i of
                 ReportlabWrites \<Rightarrow> write_temp i [FailureNotice] fs
               | ManualWrites \<Rightarrow> write_temp i [BlankPage] fs
               | ManualWriteRaises \<Rightarrow> fs
               | CreationFails \<Rightarrow> fs)
              (temp_pdfs @ [i]))
   \<and> (fst (capture_pages e pages fs temp_pdfs) = None \<longrightarrow>
        snd (snd (capture_pages e pages fs temp_pdfs)) = temp_pdfs @ pages)"
proof -
  have a: "snd (capture_attempts e i [0..<max_retries]) \<le> 3"
    using capture_attempts_bound [of e i "[0..<max_retries]"] by (simp add: max_retries_def)
  have b: "capture_attempts e i [0..<max_retries] = (None, 3)"
    if "\<forall>attempt<3. \<not> print_ok e i attempt \<and> \<not> screenshot_ok e i attempt"
    using capture_attempts_all_fail [of "[0..<max_retries]" e i] that
    by (simp add: max_retries_def)
  have c: "capture_pages e (i # later) fs temp_pdfs
      = capture_pages e later
          (case blank_result e i of
             ReportlabWrites \<Rightarrow> write_temp i [FailureNotice] fs
           | ManualWrites \<Rightarrow> write_temp i [BlankPage] fs
           | ManualWriteRaises \<Rightarrow> fs
           | CreationFails \<Rightarrow> fs)
          (temp_pdfs @ [i])"
    if "\<forall>attempt<3. \<not> print_ok e i attempt \<and> \<not> screenshot_ok e i attempt"
      "\<not> stop_before_page e i" "scroll_to_element_ok e i" "blank_result e i \<noteq> ManualWriteRaises"
    using b [OF that(1)] that(2,3,4)
    by (cases "blank_result e i") (simp_all add: capture_page_def create_blank_pdf_def)
  have d: "snd (snd (capture_pages e pages fs temp_pdfs)) = temp_pdfs @ pages"
    if "fst (capture_pages e pages fs temp_pdfs) = None"
    using that capture_pages_paths [of e pages fs temp_pdfs]
    by (cases "capture_pages e pages fs temp_pdfs") auto
  from a b c d show ?thesis by blast
qed

lemmas capture_eval = capture_page_def max_retries_def create_blank_pdf_def write_temp_def
  read_temp_def fresh_fs_def upt_rec

theorem capture_retries_and_placeholder_witness:
  "capture_pages ten_pages [4] fresh_fs [] = (None, write_temp 4 [BlankPage] fresh_fs, [4])
   \<and> capture_attempts ten_pages 4 [0..<max_retries] = (None, 3)"
proof -
  have h: "(\<forall>attempt<3. \<not> print_ok ten_pages 4 attempt \<and> \<not> screenshot_ok ten_pages 4 attempt)
      \<and> \<not> stop_before_page ten_pages 4 \<and> scroll_to_element_ok ten_pages 4
      \<and> blank_result ten_pages 4 \<noteq> ManualWriteRaises"
    by (simp add: ten_pages_def)
  have b: "blank_result ten_pages 4 = ManualWrites"
    by (simp add: ten_pages_def)
  from capture_retries_and_placeholder [of ten_pages 4 "[]" fresh_fs "[]" "[]"] h
  show ?thesis by (simp add: b)
qed

text \<open>
  C4 as the specification states it fails. With the failure of \<^verbatim>\<open>_create_blank_pdf\<close>
  caught by its last clause, the fourth path is in the list and there is no file under
  it; the merge then raises and the run returns \<^verbatim>\<open>False\<close>.
\<close>

theorem placeholder_missing_counterexample:
  "capture_pages ten_pages_no_placeholder [4] fresh_fs [] = (None, fresh_fs, [4])
   \<and> read_temp fresh_fs 4 = None
   \<and> fst (the (download_as_pdf example_url ten_pages_no_placeholder fresh_fs)) = False"
  by (simp add: ten_pages_no_placeholder_def ten_pages_def capture_eval
      download_as_pdf_def extract_doc_id_def match_doc_id_at_def doc_literals_def
      is_digit_def embed_url_def auto_scroll_and_load_def scroll_loop.simps
      initial_scroll_state_def count_pass_def end_condition_def merge_and_cleanup_def
      short_page_def example_url_def)

section \<open>The assembler\<close>

lemma merger_append_one_page_each:
  "\<forall>p \<in> set ps. \<exists>pg. read_temp fs p = Some [pg] \<Longrightarrow>
   \<exists>out. merger_append fs ps merged = Some (merged @ out) \<and> length out = length ps
     \<and> (\<forall>k<length ps. read_temp fs (ps ! k) = Some [out ! k])"
proof (induction ps arbitrary: merged)
  case Nil
  then show ?case by simp
next
  case (Cons p ps)
  from Cons.prems obtain pg where pg: "read_temp fs p = Some [pg]" by auto
  from Cons.prems have "\<forall>q \<in> set ps. \<exists>pg. read_temp fs q = Some [pg]" by simp
  from Cons.IH [OF this, of "merged @ [pg]"]
  obtain out where out: "merger_append fs ps (merged @ [pg]) = Some ((merged @ [pg]) @ out)"
    "length out = length ps" "\<forall>k<length ps. read_temp fs (ps ! k) = Some [out ! k]"
    by blast
  have "read_temp fs ((p # ps) ! k) = Some [(pg # out) ! k]" if "k < length (p # ps)" for k
    using that pg out(3) by (cases k) auto
  with pg out(1,2) show ?case
    by (intro exI [of _ "pg # out"]) simp
qed

lemma merge_pdfs_success:
  "merge_pdfs outcomes write_ok fs ps = Inr fs' \<Longrightarrow>
   \<exists>merged. merger_append fs ps [] = Some merged \<and> fs' = fs\<lparr>output_file := Some merged\<rparr>"
  by (induction outcomes write_ok fs ps rule: merge_pdfs.induct)
    (auto split: option.splits if_splits)

text \<open>
  C5. When every path given to \<^verbatim>\<open>_merge_pdfs\<close> names a readable one-page file, as
  the capture loop writes them, the merged document has exactly one page per path, the
  page of that file, in the order of the list, placeholder or not: whenever the merge
  returns, and it does return when PyPDF2 can be imported and the output written.
\<close>

theorem merge_one_page_per_artifact:
  assumes "\<forall>p \<in> set pdf_files. \<exists>pg. read_temp fs p = Some [pg]"
  shows "(\<exists>out. merge_pdfs (Imported # later) True fs pdf_files = Inr (fs\<lparr>output_file := Some out\<rparr>)
            \<and> length out = length pdf_files
            \<and> (\<forall>k<length pdf_files. read_temp fs (pdf_files ! k) = Some [out ! k]))
    \<and> (\<forall>fs'. merge_pdfs outcomes write_ok fs pdf_files = Inr fs' \<longrightarrow>
          (\<exists>out. fs' = fs\<lparr>output_file := Some out\<rparr>
            \<and> length out = length pdf_files
            \<and> (\<forall>k<length pdf_files. read_temp fs (pdf_files ! k) = Some [out ! k])))"
proof -
  from merger_append_one_page_each [OF assms, of "[]"]
  obtain out where out: "merger_append fs pdf_files [] = Some out"
    "length out = length pdf_files"
    "\<forall>k<length pdf_files. read_temp fs (pdf_files ! k) = Some [out ! k]"
    by auto
  have "merge_pdfs (Imported # later) True fs pdf_files = Inr (fs\<lparr>output_file := Some out\<rparr>)"
    using out(1) by simp
  moreover have "fs' = fs\<lparr>output_file := Some out\<rparr>"
    if "merge_pdfs outcomes write_ok fs pdf_files = Inr fs'" for fs'
    using merge_pdfs_success [OF that] out(1) by auto
  ultimately show ?thesis using out(2,3) by blast
qed

theorem merge_one_page_per_artifact_witness:
  "\<exists>out. merge_pdfs [Imported] True
        \<lparr>temp_files = ten_artifacts, temp_dir = True, output_file = None\<rparr> [1, 2, 3, 4, 5, 6, 7, 8, 9, 10]
      = Inr \<lparr>temp_files = ten_artifacts, temp_dir = True, output_file = Some out\<rparr>
    \<and> length out = 10 \<and> out ! 3 = BlankPage \<and> out ! 4 = Printed 5"
proof -
  let ?fs = "\<lparr>temp_files = ten_artifacts, temp_dir = True, output_file = None\<rparr>"
  let ?ps = "[1, 2, 3, 4, 5, 6, 7, 8, 9, 10] :: nat list"
  have h: "\<forall>p \<in> set ?ps. \<exists>pg. read_temp ?fs p = Some [pg]"
    by (simp add: read_temp_def ten_artifacts_def)
  from merge_one_page_per_artifact [OF h, of "[]" "[]" True]
  obtain out where out: "merge_pdfs [Imported] True ?fs ?ps = Inr (?fs\<lparr>output_file := Some out\<rparr>)"
    "length out = length ?ps" "\<forall>k<length ?ps. read_temp ?fs (?ps ! k) = Some [out ! k]"
    by blast
  from out(3) [rule_format, of 3] out(3) [rule_format, of 4]
  have "read_temp ?fs (?ps ! 3) = Some [out ! 3]" "read_temp ?fs (?ps ! 4) = Some [out ! 4]"
    by simp_all
  then have "out ! 3 = BlankPage" "out ! 4 = Printed 5"
    by (simp_all add: read_temp_def ten_artifacts_def)
  with out(1,2) show ?thesis by simp
qed

text \<open>The example of the specification, through the whole run.\<close>

lemma ten_pages_run:
  "download_as_pdf example_url ten_pages fresh_fs
   = Some (True, \<lparr>temp_files = [], temp_dir = False, output_file = Some ten_merged\<rparr>)"
  by (simp add: ten_pages_def ten_merged_def capture_eval
      download_as_pdf_def extract_doc_id_def match_doc_id_at_def doc_literals_def
      is_digit_def embed_url_def auto_scroll_and_load_def scroll_loop.simps
      initial_scroll_state_def count_pass_def end_condition_def merge_and_cleanup_def
      cleanup_def short_page_def example_url_def)

section \<open>After the merge\<close>

lemma filter_keys:
  "fst ` set (filter (\<lambda>(k, d). k \<noteq> p) files) = fst ` set files - {p}"
  by (induction files) auto

lemma remove_files_keys:
  "fst ` set (remove_files ok ps files) = fst ` set files - {p \<in> set ps. ok p}"
proof (induction ps arbitrary: files)
  case Nil
  then show ?case by simp
next
  case (Cons p ps)
  show ?case
    unfolding remove_files.simps Cons.IH
    by (auto simp: filter_keys)
qed

lemma remove_files_removed:
  "p \<in> set ps \<Longrightarrow> ok p \<Longrightarrow> map_of (remove_files ok ps files) p = None"
  by (simp add: map_of_eq_None_iff remove_files_keys)

lemma remove_files_all:
  assumes "\<forall>p \<in> set ps. ok p" "fst ` set files \<subseteq> set ps"
  shows "remove_files ok ps files = []"
proof -
  have "fst ` set (remove_files ok ps files) = {}"
    unfolding remove_files_keys using assms by auto
  then show ?thesis by simp
qed

lemma capture_page_keys:
  "capture_page e i fs = Inr fs' \<Longrightarrow>
   fst ` set (temp_files fs') \<subseteq> insert i (fst ` set (temp_files fs))"
  by (auto simp: capture_page_def create_blank_pdf_def write_temp_def
      split: option.splits blank_outcome.splits)

lemma capture_pages_keys:
  "capture_pages e pages fs temp_pdfs = (a, fs', temp_pdfs') \<Longrightarrow>
   fst ` set (temp_files fs) \<subseteq> set temp_pdfs \<Longrightarrow>
   fst ` set (temp_files fs') \<subseteq> set temp_pdfs'"
proof (induction pages arbitrary: fs temp_pdfs)
  case Nil
  then show ?case by simp
next
  case (Cons i later)
  show ?case
  proof (cases "stop_before_page e i \<or> \<not> scroll_to_element_ok e i")
    case True
    with Cons.prems show ?thesis by (auto split: if_splits)
  next
    case False
    show ?thesis
    proof (cases "capture_page e i fs")
      case (Inl b)
      with False Cons.prems show ?thesis by auto
    next
      case (Inr fs1)
      with False Cons.prems(1)
      have r: "capture_pages e later fs1 (temp_pdfs @ [i]) = (a, fs', temp_pdfs')" by simp
      from capture_page_keys [OF Inr] Cons.prems(2)
      have "fst ` set (temp_files fs1) \<subseteq> set (temp_pdfs @ [i])" by auto
      from Cons.IH [OF r this] show ?thesis .
    qed
  qed
qed

lemma cleanup_output: "output_file (cleanup e temp_pdfs fs) = output_file fs"
  by (simp add: cleanup_def)

lemma cleanup_removed:
  "p \<in> set temp_pdfs \<Longrightarrow> remove_ok e p \<Longrightarrow> read_temp (cleanup e temp_pdfs fs) p = None"
  by (simp add: cleanup_def read_temp_def remove_files_removed)

lemma cleanup_all:
  assumes "\<forall>p \<in> set temp_pdfs. remove_ok e p" "rmdir_ok e"
    "fst ` set (temp_files fs) \<subseteq> set temp_pdfs"
  shows "temp_files (cleanup e temp_pdfs fs) = [] \<and> \<not> temp_dir (cleanup e temp_pdfs fs)"
  using remove_files_all [OF assms(1,3)] assms(2) by (simp add: cleanup_def)

text \<open>
  C6. Take a run of \<^verbatim>\<open>download_as_pdf\<close> that gets as far as the merge, the capture
  loop having left the file system \<open>fs1\<close> and the list \<open>temp_pdfs\<close>. If the merge
  raises, the run returns \<^verbatim>\<open>False\<close> and the file system is \<open>fs1\<close> still: every
  per-page file is where the loop left it. If the merge succeeds, the run returns
  \<^verbatim>\<open>True\<close> whatever the removals do; the output is the merged document; every
  per-page file whose removal goes through is gone; and when all removals and the
  \<^verbatim>\<open>rmdir\<close> go through, in a directory that was empty at the start, no file and no
  directory is left.
\<close>

theorem merge_failure_keeps_artifacts:
  assumes "setup_driver_ok e" and "extract_doc_id url = Some doc_id"
    and "load_ok e (embed_url doc_id)"
    and "auto_scroll_and_load (first_height e) (scrolling e) = Some (Inr loaded)"
    and "\<not> stop_after_scroll e" and "page_elements e \<noteq> 0" and "makedirs_ok e"
    and "capture_pages e [1..<Suc (page_elements e)] (fs\<lparr>temp_dir := True\<rparr>) []
          = (None, fs1, temp_pdfs)"
  shows "(merge_pdfs (pypdf2_imports e) (merger_write_ok e) fs1 temp_pdfs = Inl a \<longrightarrow>
            download_as_pdf url e fs = Some (False, fs1))
    \<and> (merge_pdfs (pypdf2_imports e) (merger_write_ok e) fs1 temp_pdfs = Inr fs2 \<longrightarrow>
          (\<exists>fs3. download_as_pdf url e fs = Some (True, fs3)
             \<and> output_file fs3 = output_file fs2
             \<and> (\<forall>p \<in> set temp_pdfs. remove_ok e p \<longrightarrow> read_temp fs3 p = None)
             \<and> ((\<forall>p \<in> set temp_pdfs. remove_ok e p) \<and> rmdir_ok e \<and> temp_files fs = [] \<longrightarrow>
                  temp_files fs3 = [] \<and> \<not> temp_dir fs3)))"
proof -
  have run: "download_as_pdf url e fs = Some (merge_and_cleanup e fs1 temp_pdfs)"
    using assms by (simp add: download_as_pdf_def)
  have failed: "download_as_pdf url e fs = Some (False, fs1)"
    if "merge_pdfs (pypdf2_imports e) (merger_write_ok e) fs1 temp_pdfs = Inl a"
    using that by (simp add: run merge_and_cleanup_def)
  have merged: "\<exists>fs3. download_as_pdf url e fs = Some (True, fs3)
       \<and> output_file fs3 = output_file fs2
       \<and> (\<forall>p \<in> set temp_pdfs. remove_ok e p \<longrightarrow> read_temp fs3 p = None)
       \<and> ((\<forall>p \<in> set temp_pdfs. remove_ok e p) \<and> rmdir_ok e \<and> temp_files fs = [] \<longrightarrow>
            temp_files fs3 = [] \<and> \<not> temp_dir fs3)"
    if m: "merge_pdfs (pypdf2_imports e) (merger_write_ok e) fs1 temp_pdfs = Inr fs2"
  proof -
    let ?fs3 = "cleanup e temp_pdfs fs2"
    have r: "download_as_pdf url e fs = Some (True, ?fs3)"
      using m by (simp add: run merge_and_cleanup_def)
    from merge_pdfs_success [OF m] have t: "temp_files fs2 = temp_files fs1" by auto
    have "temp_files ?fs3 = [] \<and> \<not> temp_dir ?fs3"
      if "\<forall>p \<in> set temp_pdfs. remove_ok e p" "rmdir_ok e" "temp_files fs = []"
    proof -
      from capture_pages_keys [OF assms(8)] that(3)
      have "fst ` set (temp_files fs2) \<subseteq> set temp_pdfs" by (simp add: t)
      from cleanup_all [OF that(1,2) this] show ?thesis .
    qed
    with r show ?thesis
      by (intro exI [of _ ?fs3]) (simp add: cleanup_output cleanup_removed)
  qed
  from failed merged show ?thesis by blast
qed

lemmas run_eval = capture_eval download_as_pdf_def extract_doc_id_def match_doc_id_at_def
  doc_literals_def is_digit_def embed_url_def auto_scroll_and_load_def scroll_loop.simps
  initial_scroll_state_def count_pass_def end_condition_def merge_and_cleanup_def
  cleanup_def short_page_def example_url_def

theorem merge_failure_keeps_artifacts_witness:
  "download_as_pdf example_url ten_pages_no_merge fresh_fs
     = Some (False, \<lparr>temp_files = ten_artifacts, temp_dir = True, output_file = None\<rparr>)
   \<and> (\<exists>fs3. download_as_pdf example_url ten_pages fresh_fs = Some (True, fs3)
         \<and> output_file fs3 = Some ten_merged \<and> temp_files fs3 = [] \<and> \<not> temp_dir fs3)"
proof -
  let ?fs1 = "\<lparr>temp_files = ten_artifacts, temp_dir = True, output_file = None\<rparr>"
  let ?ps = "[1, 2, 3, 4, 5, 6, 7, 8, 9, 10] :: nat list"
  have 2: "extract_doc_id example_url = Some ''799698609''"
    by (simp add: run_eval)
  have failing: "download_as_pdf example_url ten_pages_no_merge fresh_fs = Some (False, ?fs1)"
  proof -
    let ?e = ten_pages_no_merge
    have e: "?e = ten_pages\<lparr>merger_write_ok := False\<rparr>"
      by (simp add: ten_pages_no_merge_def)
    have 1: "setup_driver_ok ?e" and 3: "load_ok ?e (embed_url ''799698609'')"
      and 5: "\<not> stop_after_scroll ?e" and 6: "page_elements ?e \<noteq> 0" and 7: "makedirs_ok ?e"
      by (simp_all add: e ten_pages_def)
    have 4: "auto_scroll_and_load (first_height ?e) (scrolling ?e) = Some (Inr 0)"
      by (simp add: e ten_pages_def run_eval)
    have 8: "capture_pages ?e [1..<Suc (page_elements ?e)] (fresh_fs\<lparr>temp_dir := True\<rparr>) []
        = (None, ?fs1, ?ps)"
      by (simp add: e ten_pages_def ten_artifacts_def capture_eval)
    have m: "merge_pdfs (pypdf2_imports ?e) (merger_write_ok ?e) ?fs1 ?ps = Inl Raised"
      by (simp add: e ten_pages_def ten_artifacts_def read_temp_def)
    from merge_failure_keeps_artifacts [OF 1 2 3 4 5 6 7 8, of Raised] m
    show ?thesis by simp
  qed
  have merging: "\<exists>fs3. download_as_pdf example_url ten_pages fresh_fs = Some (True, fs3)
      \<and> output_file fs3 = Some ten_merged \<and> temp_files fs3 = [] \<and> \<not> temp_dir fs3"
  proof -
    let ?e = ten_pages
    let ?fs2 = "\<lparr>temp_files = ten_artifacts, temp_dir = True, output_file = Some ten_merged\<rparr>"
    have 1: "setup_driver_ok ?e" and 3: "load_ok ?e (embed_url ''799698609'')"
      and 5: "\<not> stop_after_scroll ?e" and 6: "page_elements ?e \<noteq> 0" and 7: "makedirs_ok ?e"
      by (simp_all add: ten_pages_def)
    have 4: "auto_scroll_and_load (first_height ?e) (scrolling ?e) = Some (Inr 0)"
      by (simp add: ten_pages_def run_eval)
    have 8: "capture_pages ?e [1..<Suc (page_elements ?e)] (fresh_fs\<lparr>temp_dir := True\<rparr>) []
        = (None, ?fs1, ?ps)"
      by (simp add: ten_pages_def ten_artifacts_def capture_eval)
    have m: "merge_pdfs (pypdf2_imports ?e) (merger_write_ok ?e) ?fs1 ?ps = Inr ?fs2"
      by (simp add: ten_pages_def ten_artifacts_def ten_merged_def read_temp_def)
    have r: "(\<forall>p \<in> set ?ps. remove_ok ?e p) \<and> rmdir_ok ?e \<and> temp_files fresh_fs = []"
      by (simp add: ten_pages_def fresh_fs_def)
    from merge_failure_keeps_artifacts [OF 1 2 3 4 5 6 7 8, of Raised ?fs2] m r
    show ?thesis by auto
  qed
  from failing merging show ?thesis by blast
qed

text \<open>The other side, evaluated: the merge succeeds and nothing can be removed; the run
  still reports success, and the files stay.\<close>

lemma removal_failure_not_fatal:
  "download_as_pdf example_url ten_pages_no_removal fresh_fs
   = Some (True, \<lparr>temp_files = ten_artifacts, temp_dir = True, output_file = Some ten_merged\<rparr>)"
  by (simp add: ten_pages_no_removal_def ten_pages_def ten_merged_def ten_artifacts_def run_eval)


end
